theory Spec2Isabelle
  imports Main "HOL-Library.AList"
begin

section \<open>TaskGroup: the sequential task scheduler of beta/workflows/task_group.ts\<close>

subsection \<open>Thrown values, task instances, the registry\<close>

type_synonym task_id = string

text \<open>
  What a \<^verbatim>\<open>catch (e)\<close> of the module can receive. \<open>OutOfScopeError\<close> is the module's own
  class (a \<open>ToolError\<close> with message \<^verbatim>\<open>out_of_scope\<close> and the field \<open>targetTaskIds\<close>);
  \<open>ToolError\<close> and \<open>Error\<close> carry their message; \<open>TypeError\<close> is what calling a member of
  \<^verbatim>\<open>undefined\<close> raises; \<open>NonError s\<close> is any thrown value that is not an instance of
  \<^verbatim>\<open>Error\<close>, \<open>s\<close> being its rendering \<^verbatim>\<open>String(e)\<close>. \<open>ArgumentError i\<close> is the error with
  which a call of a tool is refused when its arguments do not fit the tool's parameter
  schema, \<open>i\<close> being the offending id (see \<open>call_tool\<close> below).
\<close>

datatype thrown =
    OutOfScopeError (targetTaskIds: "task_id list")
  | ToolError string
  | Error string
  | TypeError
  | ArgumentError task_id
  | NonError string

fun instanceof_OutOfScopeError :: "thrown \<Rightarrow> bool" where
  "instanceof_OutOfScopeError (OutOfScopeError _) = True"
| "instanceof_OutOfScopeError _ = False"

fun instanceof_Error :: "thrown \<Rightarrow> bool" where
  "instanceof_Error (NonError _) = False"
| "instanceof_Error _ = True"

text \<open>\<^verbatim>\<open>e instanceof Error ? e : new Error(String(e))\<close> (line 110).\<close>

fun asError :: "thrown \<Rightarrow> thrown" where
  "asError (NonError s) = Error s"
| "asError e = e"

datatype 'v settled = Resolved 'v | Rejected thrown

text \<open>
  The tool built by \<^verbatim>\<open>buildOutOfScopeTool\<close>: \<open>taskRepr\<close> is the id-to-description table that
  its description enumerates (through \<^verbatim>\<open>JSON.stringify\<close>), \<open>taskIdValues\<close> the members of the
  \<^verbatim>\<open>z.enum\<close> of its parameter schema, \<open>boundTask\<close> the reference \<^verbatim>\<open>const currentTask\<close> that
  the closure of \<^verbatim>\<open>execute\<close> captures. The closure's other two captures,
  \<^verbatim>\<open>registeredFactories\<close> and \<^verbatim>\<open>visitedTasks\<close>, alias the group's own live Map and Set, so
  \<open>execute\<close> below reads them from the state at the time of the call.
\<close>

record out_of_scope_tool =
  taskRepr :: "task_id \<rightharpoonup> string"
  taskIdValues :: "task_id list"
  boundTask :: "nat option"

text \<open>
  Modelled from the spec: \<^verbatim>\<open>AgentTask\<close> (voice/agent.js) is not among the sources. The
  spec's interface of a task is \<^verbatim>\<open>run() \<rightarrow> (success(value) | failure(error))\<close>,
  \<^verbatim>\<open>forceComplete(signal)\<close>, \<^verbatim>\<open>isDone\<close> and \<^verbatim>\<open>installCapability\<close>: an instance holds
  the outcome it was completed with, if any (\<open>fut\<close>), which is what \<^verbatim>\<open>run()\<close> settles with,
  and the installed \<^verbatim>\<open>out_of_scope\<close> tool, if any. \<open>is_done\<close> is the getter \<^verbatim>\<open>done\<close>.
\<close>

record 'v AgentTask =
  fut :: "'v settled option"
  out_of_scope :: "out_of_scope_tool option"

definition is_done :: "'v AgentTask \<Rightarrow> bool" where
  "is_done t = (fut t \<noteq> None)"

definition complete :: "'v AgentTask \<Rightarrow> 'v settled \<Rightarrow> 'v AgentTask" where
  "complete t r = t\<lparr>fut := Some r\<rparr>"

text \<open>
  \<^verbatim>\<open>interface FactoryInfo\<close> (its field \<^verbatim>\<open>id\<close> is \<open>info_id\<close> here). The factory is kept as an
  opaque token of type \<open>'f\<close>: every instance it makes starts not done, and how the instance
  then ends is given by the events of a run (below).
\<close>

record 'f FactoryInfo =
  taskFactory :: 'f
  info_id :: task_id
  description :: string

text \<open>
  A JavaScript \<^verbatim>\<open>Map\<close> iterates in insertion order and \<^verbatim>\<open>set\<close> on a present key replaces
  the value where it stands: an association list under \<open>AList.update\<close>. A \<^verbatim>\<open>Set\<close> is the
  list of its members in insertion order.
\<close>

definition Set_add :: "'a \<Rightarrow> 'a list \<Rightarrow> 'a list" where
  "Set_add x xs = (if x \<in> set xs then xs else xs @ [x])"

definition Set_delete :: "'a \<Rightarrow> 'a list \<Rightarrow> 'a list" where
  "Set_delete x xs = filter (\<lambda>y. y \<noteq> x) xs"

text \<open>
  A plain object used as a dictionary (\<^verbatim>\<open>taskResults\<close>, \<^verbatim>\<open>taskRepr\<close>) is the map of its own
  properties. The assignment \<^verbatim>\<open>obj[k] = v\<close> makes or replaces the own property \<open>k\<close>, except
  for the key \<^verbatim>\<open>__proto__\<close>: that assignment goes to the setter inherited from
  \<^verbatim>\<open>Object.prototype\<close> and leaves the own properties as they are. \<open>obj_sets\<close> is a sequence
  of such assignments.
\<close>

definition obj_set :: "(string \<rightharpoonup> 'a) \<Rightarrow> string \<Rightarrow> 'a \<Rightarrow> (string \<rightharpoonup> 'a)" where
  "obj_set m k v = (if k = ''__proto__'' then m else m(k \<mapsto> v))"

fun obj_sets :: "(string \<rightharpoonup> 'a) \<Rightarrow> string list \<Rightarrow> 'a list \<Rightarrow> (string \<rightharpoonup> 'a)" where
  "obj_sets m (k # ks) (v # vs) = obj_sets (obj_set m k v) ks vs"
| "obj_sets m ks vs = m"

definition add ::
  "(task_id \<times> 'f FactoryInfo) list \<Rightarrow> 'f \<Rightarrow> task_id \<Rightarrow> string \<Rightarrow> (task_id \<times> 'f FactoryInfo) list" where
  "add reg task i d = AList.update i \<lparr>taskFactory = task, info_id = i, description = d\<rparr> reg"

text \<open>A sequence of \<^verbatim>\<open>add\<close> calls on a new group, each call given as (task, id, description).\<close>

fun adds :: "('f \<times> task_id \<times> string) list \<Rightarrow> (task_id \<times> 'f FactoryInfo) list \<Rightarrow> (task_id \<times> 'f FactoryInfo) list" where
  "adds [] reg = reg"
| "adds ((task, i, d) # calls) reg = adds calls (add reg task i d)"

definition keys :: "('k \<times> 'a) list \<Rightarrow> 'k list" where
  "keys reg = map fst reg"

subsection \<open>The state of a run\<close>

datatype 'v entry = Value 'v | Caught thrown

text \<open>
  The fields of the group that the loop and the tool use (\<open>visitedTasks\<close>,
  \<open>registeredFactories\<close>, \<open>currentTask\<close>), the locals of \<^verbatim>\<open>onEnter\<close> (\<open>taskStack\<close>,
  \<open>taskResults\<close>), and the store of the task instances made so far (\<open>heap\<close>; a reference is
  an index into it). \<open>executed\<close> and \<open>callbackLog\<close> record, in order, the ids whose \<^verbatim>\<open>run()\<close>
  was called and the events the completion callback was called with. \<open>taskResults\<close> is a
  plain object used as a dictionary, holding task values and caught failures alike: the
  map of its own properties, written through \<open>obj_set\<close>. The order of its keys is not
  modelled.
\<close>

record ('f, 'v) state =
  visitedTasks :: "task_id list"
  registeredFactories :: "(task_id \<times> 'f FactoryInfo) list"
  currentTask :: "nat option"
  heap :: "'v AgentTask list"
  taskStack :: "task_id list"
  taskResults :: "task_id \<rightharpoonup> 'v entry"
  executed :: "task_id list"
  callbackLog :: "(task_id \<times> 'v) list"

record config =
  summarizeChatCtx :: bool
  returnExceptions :: bool
  hasCallback :: bool

definition init :: "(task_id \<times> 'f FactoryInfo) list \<Rightarrow> ('f, 'v) state" where
  "init reg = \<lparr>visitedTasks = [], registeredFactories = reg, currentTask = None, heap = [],
     taskStack = keys reg, taskResults = Map.empty, executed = [], callbackLog = []\<rparr>"

definition task_at :: "('f, 'v) state \<Rightarrow> nat \<Rightarrow> 'v AgentTask option" where
  "task_at s r = (if r < length (heap s) then Some (heap s ! r) else None)"

definition current :: "('f, 'v) state \<Rightarrow> 'v AgentTask option" where
  "current s = (case currentTask s of None \<Rightarrow> None | Some r \<Rightarrow> task_at s r)"

subsection \<open>buildOutOfScopeTool and the tool's execute\<close>

definition buildOutOfScopeTool :: "('f, 'v) state \<Rightarrow> task_id \<Rightarrow> out_of_scope_tool option" where
  "buildOutOfScopeTool s activeTaskId =
     (if visitedTasks s = [] then None
      else let regressionTaskIds = Set_delete activeTaskId (visitedTasks s) in
        if regressionTaskIds = [] then None
        else Some \<lparr>taskRepr = fold (\<lambda>(i, info) repr.
                                      if i \<in> set regressionTaskIds
                                      then obj_set repr i (description info) else repr)
                                    (registeredFactories s) Map.empty,
                   taskIdValues = regressionTaskIds,
                   boundTask = currentTask s\<rparr>)"

text \<open>The \<^verbatim>\<open>for\<close> loop of \<^verbatim>\<open>execute\<close>: the first id that is not registered or not visited.\<close>

fun first_invalid :: "('f, 'v) state \<Rightarrow> task_id list \<Rightarrow> task_id option" where
  "first_invalid s [] = None"
| "first_invalid s (tid # tids) =
     (if map_of (registeredFactories s) tid = None \<or> tid \<notin> set (visitedTasks s) then Some tid
      else first_invalid s tids)"

definition execute ::
  "out_of_scope_tool \<Rightarrow> ('f, 'v) state \<Rightarrow> task_id list \<Rightarrow> (thrown + unit) \<times> ('f, 'v) state" where
  "execute tool s task_ids =
     (case first_invalid s task_ids of
        Some tid \<Rightarrow> (Inl (ToolError (''Unable to regress, invalid task id '' @ tid)), s)
      | None \<Rightarrow>
          (case boundTask tool of
             None \<Rightarrow> (Inr (), s)
           | Some r \<Rightarrow>
               (case task_at s r of
                  None \<Rightarrow> (Inr (), s)
                | Some t \<Rightarrow>
                    if \<not> is_done t
                    then (Inr (), s\<lparr>heap := (heap s)[r := complete t (Rejected (OutOfScopeError task_ids))]\<rparr>)
                    else (Inr (), s))))"

text \<open>
  Modelled from the spec: the machinery that calls a tool on behalf of the task's actor
  (\<^verbatim>\<open>tool\<close> of llm/index.js and its callers) is not among the sources. The tool declares
  the parameter schema \<^verbatim>\<open>z.array(z.enum(taskIdValues))\<close>, and by the spec a call naming an id
  outside the set that was eligible when the tool was installed is rejected back to the
  caller with an error naming the first invalid id: a call whose list holds an id outside
  \<open>taskIdValues\<close> is refused before \<^verbatim>\<open>execute\<close> runs, and any other call is \<^verbatim>\<open>execute\<close>.
\<close>

definition call_tool ::
  "out_of_scope_tool \<Rightarrow> ('f, 'v) state \<Rightarrow> task_id list \<Rightarrow> (thrown + unit) \<times> ('f, 'v) state" where
  "call_tool tool s task_ids =
     (case find (\<lambda>i. i \<notin> set (taskIdValues tool)) task_ids of
        Some bad \<Rightarrow> (Inl (ArgumentError bad), s)
      | None \<Rightarrow> execute tool s task_ids)"

subsection \<open>The loop of onEnter\<close>

text \<open>
  What happens while the loop awaits \<^verbatim>\<open>this._currentTask.run()\<close>:
  \<^item> \<open>Succeed v cb\<close>: the task completes with the value \<open>v\<close>; if a completion callback is
    configured, its call then returns (\<open>cb = None\<close>) or throws \<open>e\<close> (\<open>cb = Some e\<close>);
  \<^item> \<open>Fail e\<close>: the task's \<^verbatim>\<open>run()\<close> rejects with \<open>e\<close>;
  \<^item> \<open>Invoke ids\<close>: the task's actor calls the \<^verbatim>\<open>out_of_scope\<close> tool installed on the task
    with \<^verbatim>\<open>task_ids = ids\<close> (\<open>call_tool\<close>); without an installed tool there is nothing to
    call.
\<close>

datatype 'v event = Succeed 'v "thrown option" | Fail thrown | Invoke "task_id list"

datatype ('f, 'v) control =
    Running task_id "('f, 'v) state"
  | Drained "('f, 'v) state"
  | Aborted thrown "('f, 'v) state"
  | Escaped thrown "('f, 'v) state"

text \<open>
  Lines 68 to 86: \<open>begin_task\<close> is one iteration from the \<^verbatim>\<open>shift\<close> up to the call of
  \<^verbatim>\<open>run()\<close>, \<open>start\<close> the loop test before it. The tool is built (line 77) before the id is
  added to the visited set (line 86). An id with no registered factory makes
  \<^verbatim>\<open>factoryInfo.taskFactory()\<close> raise outside the \<^verbatim>\<open>try\<close>.
\<close>

definition begin_task :: "('f, 'v) state \<Rightarrow> task_id \<Rightarrow> task_id list \<Rightarrow> ('f, 'v) state" where
  "begin_task s taskId rest =
     (let r = length (heap s);
          s1 = s\<lparr>taskStack := rest, currentTask := Some r,
                 heap := heap s @ [\<lparr>fut = None, out_of_scope = None\<rparr>]\<rparr>;
          outOfScopeTool = buildOutOfScopeTool s1 taskId;
          s2 = s1\<lparr>heap := (heap s1)[r := (heap s1 ! r)\<lparr>out_of_scope := outOfScopeTool\<rparr>]\<rparr>
      in s2\<lparr>visitedTasks := Set_add taskId (visitedTasks s2),
             executed := executed s2 @ [taskId]\<rparr>)"

definition start :: "('f, 'v) state \<Rightarrow> ('f, 'v) control" where
  "start s =
     (case taskStack s of
        [] \<Rightarrow> Drained s
      | taskId # rest \<Rightarrow>
          (case map_of (registeredFactories s) taskId of
             None \<Rightarrow> Escaped TypeError (s\<lparr>taskStack := rest\<rparr>)
           | Some factoryInfo \<Rightarrow> Running taskId (begin_task s taskId rest)))"

text \<open>
  Lines 87 to 113, once \<^verbatim>\<open>run()\<close> has settled with \<open>r\<close>: the rest of the \<^verbatim>\<open>try\<close> block gives
  the state and what it threw, if anything; the \<^verbatim>\<open>catch\<close> block then requeues, records or
  aborts. \<^verbatim>\<open>continue\<close> and the normal end of the body both go back to the loop test.
\<close>

definition try_block ::
  "config \<Rightarrow> task_id \<Rightarrow> ('f, 'v) state \<Rightarrow> 'v settled \<Rightarrow> thrown option \<Rightarrow> ('f, 'v) state \<times> thrown option" where
  "try_block cfg taskId s r cb =
     (case r of
        Rejected e \<Rightarrow> (s, Some e)
      | Resolved res \<Rightarrow>
          let s1 = s\<lparr>taskResults := obj_set (taskResults s) taskId (Value res)\<rparr> in
          if hasCallback cfg
          then (s1\<lparr>callbackLog := callbackLog s1 @ [(taskId, res)]\<rparr>, cb)
          else (s1, None))"

definition catch_block ::
  "config \<Rightarrow> task_id \<Rightarrow> ('f, 'v) state \<Rightarrow> thrown \<Rightarrow> ('f, 'v) control" where
  "catch_block cfg taskId s e =
     (if instanceof_OutOfScopeError e
      then start (s\<lparr>taskStack := targetTaskIds e @ taskId # taskStack s\<rparr>)
      else if returnExceptions cfg
      then start (s\<lparr>taskResults := obj_set (taskResults s) taskId (Caught e)\<rparr>)
      else Aborted (asError e) s)"

definition settle ::
  "config \<Rightarrow> task_id \<Rightarrow> ('f, 'v) state \<Rightarrow> 'v settled \<Rightarrow> thrown option \<Rightarrow> ('f, 'v) control" where
  "settle cfg taskId s r cb =
     (case try_block cfg taskId s r cb of
        (s1, None) \<Rightarrow> start s1
      | (s1, Some e) \<Rightarrow> catch_block cfg taskId s1 e)"

text \<open>
  The current instance is completed by the task itself unless the tool has completed it
  already; \<^verbatim>\<open>run()\<close> settles with what the instance holds.
\<close>

definition complete_current :: "('f, 'v) state \<Rightarrow> 'v settled \<Rightarrow> ('f, 'v) state" where
  "complete_current s r =
     (case currentTask s of
        None \<Rightarrow> s
      | Some p \<Rightarrow>
          (case task_at s p of
             None \<Rightarrow> s
           | Some t \<Rightarrow> if is_done t then s else s\<lparr>heap := (heap s)[p := complete t r]\<rparr>))"

definition await_run ::
  "config \<Rightarrow> task_id \<Rightarrow> ('f, 'v) state \<Rightarrow> thrown option \<Rightarrow> ('f, 'v) control" where
  "await_run cfg taskId s cb =
     (case current s of
        None \<Rightarrow> Running taskId s
      | Some t \<Rightarrow>
          (case fut t of
             None \<Rightarrow> Running taskId s
           | Some r \<Rightarrow> settle cfg taskId s r cb))"

text \<open>The \<^verbatim>\<open>out_of_scope\<close> tool that the current task instance carries, if any.\<close>

definition installed_tool :: "('f, 'v) state \<Rightarrow> out_of_scope_tool option" where
  "installed_tool s = (case current s of None \<Rightarrow> None | Some t \<Rightarrow> out_of_scope t)"

fun step :: "config \<Rightarrow> task_id \<Rightarrow> ('f, 'v) state \<Rightarrow> 'v event \<Rightarrow> ('f, 'v) control" where
  "step cfg taskId s (Succeed v cb) = await_run cfg taskId (complete_current s (Resolved v)) cb"
| "step cfg taskId s (Fail e) = await_run cfg taskId (complete_current s (Rejected e)) None"
| "step cfg taskId s (Invoke ids) =
     (case installed_tool s of
        None \<Rightarrow> Running taskId s
      | Some tool \<Rightarrow> await_run cfg taskId (snd (call_tool tool s ids)) None)"

text \<open>
  The loop over the events of a run. Once the loop has left (queue drained, abort, or an
  exception escaping \<^verbatim>\<open>onEnter\<close>) nothing more happens; when the events end while a task is
  still awaited, the result is that \<open>Running\<close> state.
\<close>

fun run :: "config \<Rightarrow> ('f, 'v) control \<Rightarrow> 'v event list \<Rightarrow> ('f, 'v) control" where
  "run cfg c [] = c"
| "run cfg (Running taskId s) (ev # evs) = run cfg (step cfg taskId s ev) evs"
| "run cfg c (ev # evs) = c"

fun state_of :: "('f, 'v) control \<Rightarrow> ('f, 'v) state" where
  "state_of (Running taskId s) = s"
| "state_of (Drained s) = s"
| "state_of (Aborted e s) = s"
| "state_of (Escaped e s) = s"

subsection \<open>Finalization and the outcome of onEnter\<close>

text \<open>
  Lines 116 to 141. The session, the chat context and its summarization are outside the
  sources: \<open>NoStandardLLM\<close> is \<^verbatim>\<open>!(sessionLlm instanceof LLM)\<close>, \<open>SummarizeThrows txt\<close> is a
  failure of \<^verbatim>\<open>copy\<close>, \<^verbatim>\<open>_summarize\<close> or \<^verbatim>\<open>updateChatCtx\<close> with a thrown value \<open>e\<close> whose
  rendering in the template string is \<open>txt\<close>, and \<open>Summarized\<close> is their success.
\<close>

datatype summarize_event = NoStandardLLM | SummarizeThrows string | Summarized

datatype 'v outcome =
    Completed "task_id \<rightharpoonup> 'v entry"
  | Failed thrown
  | Threw thrown
  | Unsettled

definition finalize :: "config \<Rightarrow> (task_id \<rightharpoonup> 'v entry) \<Rightarrow> summarize_event \<Rightarrow> 'v outcome" where
  "finalize cfg results fin =
     (if summarizeChatCtx cfg
      then (case fin of
              NoStandardLLM \<Rightarrow>
                Failed (Error (''failed to summarize the chat_ctx: '' @
                               ''Error: summarizeChatCtx requires a standard LLM on the session''))
            | SummarizeThrows txt \<Rightarrow> Failed (Error (''failed to summarize the chat_ctx: '' @ txt))
            | Summarized \<Rightarrow> Completed results)
      else Completed results)"

fun conclude :: "config \<Rightarrow> summarize_event \<Rightarrow> ('f, 'v) control \<Rightarrow> 'v outcome" where
  "conclude cfg fin (Drained s) = finalize cfg (taskResults s) fin"
| "conclude cfg fin (Aborted e s) = Failed e"
| "conclude cfg fin (Escaped e s) = Threw e"
| "conclude cfg fin (Running taskId s) = Unsettled"

definition onEnter ::
  "config \<Rightarrow> (task_id \<times> 'f FactoryInfo) list \<Rightarrow> 'v event list \<Rightarrow> summarize_event \<Rightarrow> 'v outcome" where
  "onEnter cfg reg evs fin = conclude cfg fin (run cfg (start (init reg)) evs)"

subsection \<open>Reading the events of a run\<close>

text \<open>
  \<open>recorded cfg ev\<close> is the value that an iteration ending with \<open>ev\<close> last assigns to
  \<^verbatim>\<open>taskResults[taskId]\<close> when the loop then goes on to the next queued id, and \<open>None\<close> when
  the event is a regression signal, a call of the tool, or a failure under fail-fast.
  \<open>fired cfg tid ev\<close> is what such an iteration appends to the callback log.
\<close>

fun recorded :: "config \<Rightarrow> 'v event \<Rightarrow> 'v entry option" where
  "recorded cfg (Succeed v None) = Some (Value v)"
| "recorded cfg (Succeed v (Some e)) =
     (if \<not> hasCallback cfg then Some (Value v)
      else if instanceof_OutOfScopeError e \<or> \<not> returnExceptions cfg then None
      else Some (Caught e))"
| "recorded cfg (Fail e) =
     (if instanceof_OutOfScopeError e \<or> \<not> returnExceptions cfg then None else Some (Caught e))"
| "recorded cfg (Invoke ids) = None"

fun fired :: "config \<Rightarrow> task_id \<Rightarrow> 'v event \<Rightarrow> (task_id \<times> 'v) list" where
  "fired cfg tid (Succeed v cb) = (if hasCallback cfg then [(tid, v)] else [])"
| "fired cfg tid ev = []"

section \<open>The registry\<close>

lemma remdups_skip_present: "x \<in> set ys \<Longrightarrow> remdups (xs @ x # ys) = remdups (xs @ ys)"
  by (induction xs) auto

lemma keys_add:
  "keys (add reg task i d) = (if i \<in> set (keys reg) then keys reg else keys reg @ [i])"
  by (simp add: keys_def add_def update_keys)

lemma map_of_add:
  "map_of (add reg task i d) = (map_of reg)(i \<mapsto> \<lparr>taskFactory = task, info_id = i, description = d\<rparr>)"
  by (simp add: add_def update_conv')

lemma distinct_keys_add: "distinct (keys reg) \<Longrightarrow> distinct (keys (add reg task i d))"
  by (simp add: keys_add)

lemma distinct_keys_adds: "distinct (keys reg) \<Longrightarrow> distinct (keys (adds calls reg))"
  by (induction calls reg rule: adds.induct) (simp_all add: distinct_keys_add)

lemma keys_adds:
  assumes "distinct (keys reg)"
  shows "keys (adds calls reg) = rev (remdups (rev (keys reg @ map (\<lambda>(task, i, d). i) calls)))"
  using assms
proof (induction calls reg rule: adds.induct)
  case (1 reg)
  then show ?case by (simp add: distinct_remdups_id)
next
  case (2 task i d calls reg)
  then show ?case
    by (auto simp add: keys_add remdups_skip_present)
qed

lemma map_of_adds:
  "map_of (adds calls reg) =
   map_of (rev (map (\<lambda>(task, i, d). (i, \<lparr>taskFactory = task, info_id = i, description = d\<rparr>)) calls) @ reg)"
proof (induction calls reg rule: adds.induct)
  case (1 reg)
  then show ?case by simp
next
  case (2 task i d calls reg)
  then show ?case by (simp add: map_of_add fun_eq_iff map_add_def split: option.splits)
qed

text \<open>
  C9. After any sequence of \<^verbatim>\<open>add\<close> calls on a new group, looking an id up gives the factory
  and description of the last call that named it (\<open>map_of\<close> of the reversed calls finds the
  latest one); \<^verbatim>\<open>keys()\<close> holds each id once, ordered by first registration (the reversed
  \<open>remdups\<close> of the reversed ids keeps first occurrences); a single \<^verbatim>\<open>add\<close> of a present id
  leaves the key order as it is and otherwise appends the id; the queue of a run starts as
  those keys.
\<close>

theorem add_last_write_wins_first_position:
  fixes calls :: "('f \<times> task_id \<times> string) list"
  shows "map_of (adds calls []) =
           map_of (rev (map (\<lambda>(task, i, d). (i, \<lparr>taskFactory = task, info_id = i, description = d\<rparr>)) calls))
       \<and> distinct (keys (adds calls []))
       \<and> keys (adds calls []) = rev (remdups (rev (map (\<lambda>(task, i, d). i) calls)))
       \<and> keys (add reg task i d) = (if i \<in> set (keys reg) then keys reg else keys reg @ [i])
       \<and> map_of (add reg task i d) i = Some \<lparr>taskFactory = task, info_id = i, description = d\<rparr>
       \<and> taskStack (init (adds calls []) :: ('f, 'v) state) = keys (adds calls [])"
  using map_of_adds[of calls "[]"] distinct_keys_adds[of "[]" calls] keys_adds[of "[]" calls]
  by (simp add: keys_add map_of_add init_def) (simp add: keys_def)

section \<open>One iteration of the loop\<close>

lemma buildOutOfScopeTool_cong:
  "visitedTasks s = visitedTasks s' \<Longrightarrow> registeredFactories s = registeredFactories s' \<Longrightarrow>
   currentTask s = currentTask s' \<Longrightarrow> buildOutOfScopeTool s t = buildOutOfScopeTool s' t"
  by (simp add: buildOutOfScopeTool_def Let_def cong: if_cong)

lemma begin_task_eq:
  "begin_task s tid rest =
     s\<lparr>taskStack := rest, currentTask := Some (length (heap s)),
       heap := heap s @ [\<lparr>fut = None,
                out_of_scope = buildOutOfScopeTool (s\<lparr>currentTask := Some (length (heap s))\<rparr>) tid\<rparr>],
       visitedTasks := Set_add tid (visitedTasks s),
       executed := executed s @ [tid]\<rparr>"
  by (simp add: begin_task_def Let_def
      buildOutOfScopeTool_cong[of "s\<lparr>taskStack := rest, currentTask := Some (length (heap s)),
                 heap := heap s @ [\<lparr>fut = None, out_of_scope = None\<rparr>]\<rparr>" "s\<lparr>currentTask := Some (length (heap s))\<rparr>"])

lemma begin_task_fields [simp]:
  "taskStack (begin_task s tid rest) = rest"
  "currentTask (begin_task s tid rest) = Some (length (heap s))"
  "visitedTasks (begin_task s tid rest) = Set_add tid (visitedTasks s)"
  "executed (begin_task s tid rest) = executed s @ [tid]"
  "taskResults (begin_task s tid rest) = taskResults s"
  "callbackLog (begin_task s tid rest) = callbackLog s"
  "registeredFactories (begin_task s tid rest) = registeredFactories s"
  "length (heap (begin_task s tid rest)) = Suc (length (heap s))"
  by (simp_all add: begin_task_eq)

lemma current_begin_task:
  "current (begin_task s tid rest) =
     Some \<lparr>fut = None, out_of_scope = buildOutOfScopeTool (s\<lparr>currentTask := Some (length (heap s))\<rparr>) tid\<rparr>"
  by (simp add: current_def task_at_def begin_task_eq)

lemma start_Cons:
  "taskStack s = tid # rest \<Longrightarrow> map_of (registeredFactories s) tid = Some info \<Longrightarrow>
   start s = Running tid (begin_task s tid rest)"
  by (simp add: start_def)

lemma await_run_begin:
  "await_run cfg tid (complete_current (begin_task s tid rest) r) cb =
     settle cfg tid (complete_current (begin_task s tid rest) r) r cb"
  by (simp add: await_run_def complete_current_def current_def task_at_def begin_task_eq is_done_def complete_def)

lemma complete_current_fields [simp]:
  "taskStack (complete_current s r) = taskStack s"
  "currentTask (complete_current s r) = currentTask s"
  "visitedTasks (complete_current s r) = visitedTasks s"
  "executed (complete_current s r) = executed s"
  "taskResults (complete_current s r) = taskResults s"
  "callbackLog (complete_current s r) = callbackLog s"
  "registeredFactories (complete_current s r) = registeredFactories s"
  "length (heap (complete_current s r)) = length (heap s)"
  by (simp_all add: complete_current_def split: option.splits)


lemma obj_set_twice [simp]: "obj_set (obj_set m k a) k b = obj_set m k b"
  by (simp add: obj_set_def)

lemma obj_set_other: "k \<noteq> ''__proto__'' \<Longrightarrow> obj_set m k v = m(k \<mapsto> v)"
  by (simp add: obj_set_def)

lemma obj_sets_upds:
  "length ks = length vs \<Longrightarrow> ''__proto__'' \<notin> set ks \<Longrightarrow> obj_sets m ks vs = m(ks [\<mapsto>] vs)"
  by (induction ks vs arbitrary: m rule: list_induct2) (auto simp: obj_set_def)

lemma dom_obj_sets:
  "length ks = length vs \<Longrightarrow> dom (obj_sets m ks vs) = dom m \<union> (set ks - {''__proto__''})"
  by (induction ks vs arbitrary: m rule: list_induct2) (auto simp: obj_set_def)

lemma obj_sets_snoc:
  "length ks = length vs \<Longrightarrow> obj_sets m (ks @ [k]) (vs @ [v]) = obj_set (obj_sets m ks vs) k v"
  by (induction ks vs arbitrary: m rule: list_induct2) simp_all

lemma obj_sets_notin:
  "length ks = length vs \<Longrightarrow> k \<notin> set ks \<Longrightarrow> obj_sets m ks vs k = m k"
  by (induction ks vs arbitrary: m rule: list_induct2) (simp_all add: obj_set_def)

lemma settle_Resolved:
  "settle cfg tid s (Resolved v) cb =
     (let s1 = s\<lparr>taskResults := obj_set (taskResults s) tid (Value v)\<rparr> in
      if hasCallback cfg
      then (case cb of None \<Rightarrow> start (s1\<lparr>callbackLog := callbackLog s @ [(tid, v)]\<rparr>)
            | Some e \<Rightarrow> catch_block cfg tid (s1\<lparr>callbackLog := callbackLog s @ [(tid, v)]\<rparr>) e)
      else start s1)"
  by (simp add: settle_def try_block_def Let_def split: option.splits)

lemma settle_Rejected: "settle cfg tid s (Rejected e) cb = catch_block cfg tid s e"
  by (simp add: settle_def try_block_def)

lemma iteration_recorded:
  assumes "recorded cfg ev = Some x"
  shows "\<exists>s'. step cfg tid (begin_task s tid rest) ev = start s'
            \<and> taskStack s' = rest
            \<and> registeredFactories s' = registeredFactories s
            \<and> taskResults s' = obj_set (taskResults s) tid x
            \<and> executed s' = executed s @ [tid]
            \<and> visitedTasks s' = Set_add tid (visitedTasks s)
            \<and> callbackLog s' = callbackLog s @ fired cfg tid ev"
proof (cases ev)
  case (Succeed v cb)
  show ?thesis
  proof (cases "hasCallback cfg")
    case True
    then show ?thesis
      using assms Succeed
      by (cases cb) (auto simp: await_run_begin settle_Resolved Let_def catch_block_def split: if_splits)
  next
    case False
    then show ?thesis
      using assms Succeed
      by (cases cb) (auto simp: await_run_begin settle_Resolved Let_def)
  qed
next
  case (Fail e)
  then show ?thesis
    using assms by (auto simp: await_run_begin settle_Rejected catch_block_def split: if_splits)
next
  case (Invoke ids)
  then show ?thesis using assms by simp
qed


lemma set_Set_add [simp]: "set (Set_add x xs) = insert x (set xs)"
  by (auto simp: Set_add_def)

lemma segment:
  assumes "length T = length evs"
    and "taskStack s = T @ rest"
    and "\<forall>t\<in>set T. map_of (registeredFactories s) t \<noteq> None"
    and "\<forall>ev\<in>set evs. recorded cfg ev \<noteq> None"
  shows "\<exists>s'. run cfg (start s) (evs @ later) = run cfg (start s') later
            \<and> taskStack s' = rest
            \<and> registeredFactories s' = registeredFactories s
            \<and> taskResults s' = obj_sets (taskResults s) T (map (\<lambda>ev. the (recorded cfg ev)) evs)
            \<and> executed s' = executed s @ T
            \<and> set (visitedTasks s') = set (visitedTasks s) \<union> set T
            \<and> callbackLog s' = callbackLog s @ concat (map2 (fired cfg) T evs)"
  using assms
proof (induction T evs arbitrary: s rule: list_induct2)
  case Nil
  then show ?case by auto
next
  case (Cons tid T ev evs)
  from Cons.prems obtain info x where
    reg: "map_of (registeredFactories s) tid = Some info" and x: "recorded cfg ev = Some x"
    by auto
  from iteration_recorded[OF x, of tid s "T @ rest"] obtain s1 where
    s1: "step cfg tid (begin_task s tid (T @ rest)) ev = start s1"
      "taskStack s1 = T @ rest"
      "registeredFactories s1 = registeredFactories s"
      "taskResults s1 = obj_set (taskResults s) tid x"
      "executed s1 = executed s @ [tid]"
      "visitedTasks s1 = Set_add tid (visitedTasks s)"
      "callbackLog s1 = callbackLog s @ fired cfg tid ev"
    by blast
  have run1: "run cfg (start s) ((ev # evs) @ later) = run cfg (start s1) (evs @ later)"
    using Cons.prems(1) reg s1(1) by (simp add: start_Cons[OF _ reg])
  have p1: "taskStack s1 = T @ rest" by (rule s1(2))
  have p2: "\<forall>t\<in>set T. map_of (registeredFactories s1) t \<noteq> None"
    using Cons.prems(2) by (simp add: s1(3))
  have p3: "\<forall>ev\<in>set evs. recorded cfg ev \<noteq> None"
    using Cons.prems(3) by simp
  from Cons.IH[OF p1 p2 p3] obtain s' where
    s': "run cfg (start s1) (evs @ later) = run cfg (start s') later"
      "taskStack s' = rest"
      "registeredFactories s' = registeredFactories s1"
      "taskResults s' = obj_sets (taskResults s1) T (map (\<lambda>ev. the (recorded cfg ev)) evs)"
      "executed s' = executed s1 @ T"
      "set (visitedTasks s') = set (visitedTasks s1) \<union> set T"
      "callbackLog s' = callbackLog s1 @ concat (map2 (fired cfg) T evs)"
    by blast
  show ?case
    using run1 s' s1 x by (intro exI[of _ s']) auto
qed

section \<open>Evaluating concrete runs\<close>

lemmas run_defs =
  init_def keys_def add_def start_def begin_task_def Let_def buildOutOfScopeTool_def
  Set_add_def Set_delete_def await_run_def complete_current_def current_def task_at_def
  installed_tool_def is_done_def complete_def settle_def try_block_def catch_block_def
  execute_def call_tool_def obj_set_def

section \<open>Runs without regression\<close>

lemma map_upds_distinct:
  "length xs = length ys \<Longrightarrow> distinct xs \<Longrightarrow> m(xs [\<mapsto>] ys) = m ++ map_of (zip xs ys)"
proof (induction xs ys arbitrary: m rule: list_induct2)
  case Nil
  then show ?case by simp
next
  case (Cons x xs y ys)
  have "x \<notin> set xs" using Cons.prems by simp
  then have "map_of (zip xs ys) x = None"
    by (auto simp: map_of_eq_None_iff dest: set_zip_leftD)
  then show ?case
    using Cons by (auto simp: fun_eq_iff map_add_def split: option.splits)
qed

lemma map_upds_empty_distinct:
  "distinct xs \<Longrightarrow> length xs = length ys \<Longrightarrow> Map.empty(xs [\<mapsto>] ys) = map_of (zip xs ys)"
  by (simp add: map_upds_distinct)

lemma fired_successes:
  "length T = length vs \<Longrightarrow>
   concat (map2 (fired cfg) T (map (\<lambda>v. Succeed v None) vs)) = (if hasCallback cfg then zip T vs else [])"
  by (induction T vs rule: list_induct2) auto

lemma registered_keys: "\<forall>t\<in>set (keys reg). map_of reg t \<noteq> None"
  by (auto simp: keys_def map_of_eq_None_iff)

lemma start_Nil: "taskStack s = [] \<Longrightarrow> start s = Drained s"
  by (simp add: start_def)

lemma init_fields [simp]:
  "taskStack (init reg) = keys reg" "registeredFactories (init reg) = reg"
  "taskResults (init reg) = Map.empty" "executed (init reg) = []" "callbackLog (init reg) = []"
  "visitedTasks (init reg) = []"
  by (simp_all add: init_def)

text \<open>
  C6, as the code has it. When every task succeeds, none raises a regression signal and
  the completion callback does not throw (one event \<open>Succeed v None\<close> per registered id),
  the loop drains the queue having called \<^verbatim>\<open>run()\<close> on the ids in the order of \<^verbatim>\<open>keys()\<close>, and
  the completion callback (when one is configured) was called once per task in that order
  with the task's value. When no id is \<^verbatim>\<open>__proto__\<close>, \<open>taskResults\<close> maps each id to its value.
  The outcome of \<^verbatim>\<open>onEnter\<close> is the finalization of \<open>taskResults\<close>: \<open>taskResults\<close> itself when
  summarization is off or succeeds.
\<close>

theorem registration_order_run:
  fixes calls :: "('f \<times> task_id \<times> string) list" and vs :: "'v list"
  assumes "length vs = length (keys (adds calls []))"
  shows "\<exists>s'. run cfg (start (init (adds calls []))) (map (\<lambda>v. Succeed v None) vs) = Drained s'
            \<and> executed s' = keys (adds calls [])
            \<and> callbackLog s' = (if hasCallback cfg then zip (keys (adds calls [])) vs else [])
            \<and> (''__proto__'' \<notin> set (keys (adds calls []))
                 \<longrightarrow> taskResults s' = map_of (zip (keys (adds calls [])) (map Value vs)))
            \<and> onEnter cfg (adds calls []) (map (\<lambda>v. Succeed v None) vs) fin
                 = finalize cfg (taskResults s') fin
            \<and> ((summarizeChatCtx cfg \<longrightarrow> fin = Summarized) \<longrightarrow>
                  onEnter cfg (adds calls []) (map (\<lambda>v. Succeed v None) vs) fin
                    = Completed (taskResults s'))"
proof -
  let ?reg = "adds calls []"
  let ?O = "keys ?reg"
  let ?evs = "map (\<lambda>v. Succeed v None) vs"
  let ?s = "init ?reg :: ('f, 'v) state"
  have d: "distinct ?O"
    by (rule distinct_keys_adds) (simp add: keys_def)
  have len: "length ?O = length ?evs" using assms by simp
  have rec: "\<forall>ev\<in>set ?evs. recorded cfg ev \<noteq> None" by auto
  have reg: "\<forall>t\<in>set ?O. map_of (registeredFactories ?s) t \<noteq> None"
    using registered_keys[of ?reg] by simp
  have st: "taskStack ?s = ?O @ []" by simp
  from segment[OF len st reg rec, of "[]"] obtain s' where
    s': "run cfg (start ?s) ?evs = run cfg (start s') []"
      "taskStack s' = []"
      "taskResults s' = obj_sets (taskResults ?s) ?O (map (\<lambda>ev. the (recorded cfg ev)) ?evs)"
      "executed s' = executed ?s @ ?O"
      "callbackLog s' = callbackLog ?s @ concat (map2 (fired cfg) ?O ?evs)"
    by auto
  have r: "run cfg (start ?s) ?evs = Drained s'"
    using s'(1,2) by (simp add: start_Nil)
  have vals: "map (\<lambda>ev. the (recorded cfg ev)) ?evs = map Value vs"
    by simp
  have res: "''__proto__'' \<notin> set ?O \<longrightarrow> taskResults s' = map_of (zip ?O (map Value vs))"
  proof
    assume "''__proto__'' \<notin> set ?O"
    then have "taskResults s' = Map.empty(?O [\<mapsto>] map Value vs)"
      using assms by (simp add: s'(3) vals obj_sets_upds del: map_map)
    then show "taskResults s' = map_of (zip ?O (map Value vs))"
      using d assms by (simp add: map_upds_empty_distinct)
  qed
  have cb: "callbackLog s' = (if hasCallback cfg then zip ?O vs else [])"
    using s'(5) assms fired_successes[of ?O vs cfg] by simp
  have ex: "executed s' = ?O" using s'(4) by simp
  have on: "onEnter cfg ?reg ?evs fin = finalize cfg (taskResults s') fin"
    by (simp add: onEnter_def r)
  have fin: "(summarizeChatCtx cfg \<longrightarrow> fin = Summarized) \<longrightarrow>
      onEnter cfg ?reg ?evs fin = Completed (taskResults s')"
    by (auto simp: on finalize_def)
  show ?thesis
    using r res cb ex on fin by (intro exI[of _ s']) simp
qed

theorem registration_order_run_witness:
  "length [1::nat, 2, 3] = length (keys (adds [((), ''a'', ''A''), ((), ''b'', ''B''), ((), ''c'', ''C'')] []))
   \<and> (\<exists>s'. run \<lparr>summarizeChatCtx = False, returnExceptions = False, hasCallback = True\<rparr>
             (start (init (adds [((), ''a'', ''A''), ((), ''b'', ''B''), ((), ''c'', ''C'')] [])))
             [Succeed (1::nat) None, Succeed 2 None, Succeed 3 None] = Drained s'
          \<and> executed s' = [''a'', ''b'', ''c'']
          \<and> callbackLog s' = [(''a'', 1), (''b'', 2), (''c'', 3)]
          \<and> taskResults s' = map_of [(''a'', Value 1), (''b'', Value 2), (''c'', Value 3)]
          \<and> onEnter \<lparr>summarizeChatCtx = False, returnExceptions = False, hasCallback = True\<rparr>
               (adds [((), ''a'', ''A''), ((), ''b'', ''B''), ((), ''c'', ''C'')] [])
               [Succeed (1::nat) None, Succeed 2 None, Succeed 3 None] NoStandardLLM
             = Completed (taskResults s'))"
  using registration_order_run[of "[1::nat, 2, 3]" "[((), ''a'', ''A''), ((), ''b'', ''B''), ((), ''c'', ''C'')]"
      "\<lparr>summarizeChatCtx = False, returnExceptions = False, hasCallback = True\<rparr>" NoStandardLLM]
  by (auto simp add: keys_def add_def)

theorem all_succeed_summarization_fails_counterexample:
  "executed (state_of (run \<lparr>summarizeChatCtx = True, returnExceptions = False, hasCallback = True\<rparr>
       (start (init (adds [((), ''a'', ''A''), ((), ''b'', ''B''), ((), ''c'', ''C'')] [])))
       [Succeed (1::nat) None, Succeed 2 None, Succeed 3 None]))
     = [''a'', ''b'', ''c'']
   \<and> onEnter \<lparr>summarizeChatCtx = True, returnExceptions = False, hasCallback = True\<rparr>
        (adds [((), ''a'', ''A''), ((), ''b'', ''B''), ((), ''c'', ''C'')] [])
        [Succeed (1::nat) None, Succeed 2 None, Succeed 3 None] NoStandardLLM
     = Failed (Error ''failed to summarize the chat_ctx: Error: summarizeChatCtx requires a standard LLM on the session'')"
  by (simp add: onEnter_def finalize_def run_defs)

section \<open>The two failure policies\<close>

text \<open>
  Under collect-and-continue (\<^verbatim>\<open>returnExceptions\<close>), when the \<^verbatim>\<open>run()\<close> of the task \<open>tid\<close> at
  the front of the queue rejects with a failure \<open>e\<close> that is not the regression signal, and
  \<open>tid\<close> is not \<^verbatim>\<open>__proto__\<close>, the loop stores \<open>e\<close> itself (message included) as the entry of
  \<open>tid\<close> and goes back to the loop test with the rest of the queue. If then every queued task settles, with a value or
  with a failure that is not a regression signal, the loop drains having run every one of
  them in queue order, and the entry of \<open>tid\<close> is still the caught \<open>e\<close> unless \<open>tid\<close> was queued
  again behind itself.
\<close>

lemma collected_failure_continues:
  assumes "returnExceptions cfg"
    and "taskStack s = tid # rest"
    and "map_of (registeredFactories s) tid = Some info"
    and "\<not> instanceof_OutOfScopeError e"
    and "tid \<noteq> ''__proto__''"
  shows "(\<exists>s'. step cfg tid (begin_task s tid rest) (Fail e) = start s'
            \<and> taskStack s' = rest
            \<and> taskResults s' = (taskResults s)(tid \<mapsto> Caught e)
            \<and> executed s' = executed s @ [tid])
       \<and> ((\<forall>t\<in>set rest. map_of (registeredFactories s) t \<noteq> None)
            \<and> length evs = length rest
            \<and> (\<forall>ev\<in>set evs. (\<exists>v. ev = Succeed v None)
                              \<or> (\<exists>e'. ev = Fail e' \<and> \<not> instanceof_OutOfScopeError e'))
          \<longrightarrow> (\<exists>s''. run cfg (start s) (Fail e # evs) = Drained s''
                 \<and> executed s'' = executed s @ tid # rest
                 \<and> (tid \<notin> set rest \<longrightarrow> taskResults s'' tid = Some (Caught e))))"
proof (intro conjI impI)
  have "recorded cfg (Fail e) = Some (Caught e)"
    using assms(1,4) by simp
  from iteration_recorded[OF this, of tid s rest, unfolded obj_set_other[OF assms(5)]]
  show "\<exists>s'. step cfg tid (begin_task s tid rest) (Fail e) = start s'
            \<and> taskStack s' = rest
            \<and> taskResults s' = (taskResults s)(tid \<mapsto> Caught e)
            \<and> executed s' = executed s @ [tid]"
    by blast
next
  assume later: "(\<forall>t\<in>set rest. map_of (registeredFactories s) t \<noteq> None)
            \<and> length evs = length rest
            \<and> (\<forall>ev\<in>set evs. (\<exists>v. ev = Succeed v None)
                              \<or> (\<exists>e'. ev = Fail e' \<and> \<not> instanceof_OutOfScopeError e'))"
  have len: "length (tid # rest) = length (Fail e # evs)"
    using later by simp
  have st: "taskStack s = (tid # rest) @ []"
    using assms(2) by simp
  have reg: "\<forall>t\<in>set (tid # rest). map_of (registeredFactories s) t \<noteq> None"
    using later assms(3) by simp
  have rec: "\<forall>ev\<in>set (Fail e # evs). recorded cfg ev \<noteq> None"
    using later assms(1,4) by auto
  from segment[OF len st reg rec, of "[]"] obtain s'' where
    s'': "run cfg (start s) (Fail e # evs) = run cfg (start s'') []"
      "taskStack s'' = []"
      "taskResults s'' =
         obj_sets (taskResults s) (tid # rest) (map (\<lambda>ev. the (recorded cfg ev)) (Fail e # evs))"
      "executed s'' = executed s @ tid # rest"
    by auto
  have drained: "run cfg (start s) (Fail e # evs) = Drained s''"
    using s''(1,2) by (simp add: start_Nil)
  have entry: "tid \<notin> set rest \<longrightarrow> taskResults s'' tid = Some (Caught e)"
  proof
    assume n: "tid \<notin> set rest"
    have l: "length rest = length (map (\<lambda>ev. the (recorded cfg ev)) evs)"
      using later by simp
    have rc: "the (recorded cfg (Fail e)) = Caught e"
      using assms(1,4) by simp
    have "taskResults s'' tid
        = obj_sets (obj_set (taskResults s) tid (Caught e)) rest (map (\<lambda>ev. the (recorded cfg ev)) evs) tid"
      by (simp only: s''(3) list.map obj_sets.simps rc)
    also have "\<dots> = obj_set (taskResults s) tid (Caught e) tid"
      by (rule obj_sets_notin[OF l n])
    also have "\<dots> = Some (Caught e)"
      using assms(5) by (simp add: obj_set_def)
    finally show "taskResults s'' tid = Some (Caught e)" .
  qed
  show "\<exists>s''. run cfg (start s) (Fail e # evs) = Drained s''
                 \<and> executed s'' = executed s @ tid # rest
                 \<and> (tid \<notin> set rest \<longrightarrow> taskResults s'' tid = Some (Caught e))"
    using drained s''(4) entry by blast
qed


text \<open>
  C4, as the code has it. Under fail-fast, when the \<^verbatim>\<open>run()\<close> of the task \<open>tid\<close> at the front of
  the queue rejects with a failure \<open>e\<close> that is not the regression signal, the loop aborts at
  once: whatever events follow, no further \<^verbatim>\<open>run()\<close> is called and the queue behind \<open>tid\<close>
  is left as it was; the outcome is \<open>e\<close> itself when it is an \<^verbatim>\<open>Error\<close>, else a new \<^verbatim>\<open>Error\<close>
  of its rendering; and the failing iteration writes nothing to \<open>taskResults\<close>, which stays
  exactly as it was before that iteration. In a run from registration in which the tasks
  before \<open>tid\<close> succeeded and none regressed, \<open>taskResults\<close> therefore has entries for those
  tasks only (but for one named \<^verbatim>\<open>__proto__\<close>), none for \<open>tid\<close> or for a task queued after it.
\<close>

theorem fail_fast_aborts:
  fixes s :: "('f, 'v) state" and calls :: "('g \<times> task_id \<times> string) list" and vs :: "'v list"
  assumes "\<not> returnExceptions cfg"
    and "\<not> instanceof_OutOfScopeError e"
  shows "(taskStack s = tid # rest \<and> map_of (registeredFactories s) tid \<noteq> None
          \<longrightarrow> (\<exists>s'. run cfg (start s) (Fail e # evs) = Aborted (asError e) s'
                 \<and> conclude cfg fin (run cfg (start s) (Fail e # evs)) = Failed (asError e)
                 \<and> (instanceof_Error e \<longrightarrow> asError e = e)
                 \<and> executed s' = executed s @ [tid]
                 \<and> taskStack s' = rest
                 \<and> taskResults s' = taskResults s))
       \<and> (keys (adds calls []) = pre @ tid # post \<and> length vs = length pre
          \<longrightarrow> (\<exists>s'. run cfg (start (init (adds calls []))) (map (\<lambda>v. Succeed v None) vs @ Fail e # evs)
                        = Aborted (asError e) s'
                 \<and> onEnter cfg (adds calls []) (map (\<lambda>v. Succeed v None) vs @ Fail e # evs) fin
                        = Failed (asError e)
                 \<and> executed s' = pre @ [tid]
                 \<and> dom (taskResults s') = set pre - {''__proto__''}
                 \<and> tid \<notin> set pre \<and> set post \<inter> set pre = {}))"
proof -
  have one: "\<exists>s'. run cfg (start s) (Fail e # evs) = Aborted (asError e) s'
                 \<and> conclude cfg fin (run cfg (start s) (Fail e # evs)) = Failed (asError e)
                 \<and> (instanceof_Error e \<longrightarrow> asError e = e)
                 \<and> executed s' = executed s @ [tid]
                 \<and> taskStack s' = rest
                 \<and> taskResults s' = taskResults s"
    if st: "taskStack s = tid # rest" and reg: "map_of (registeredFactories s) tid \<noteq> None"
    for s :: "('h, 'v) state" and evs rest
  proof -
    let ?s1 = "complete_current (begin_task s tid rest) (Rejected e)"
    from reg obtain info where info: "map_of (registeredFactories s) tid = Some info" by auto
    have "step cfg tid (begin_task s tid rest) (Fail e) = Aborted (asError e) ?s1"
      using assms by (simp add: await_run_begin settle_Rejected catch_block_def)
    then have r: "run cfg (start s) (Fail e # evs) = Aborted (asError e) ?s1"
      by (cases evs) (simp_all add: start_Cons[OF st info])
    have as: "instanceof_Error e \<longrightarrow> asError e = e"
      by (cases e) simp_all
    show ?thesis
      using r as by (intro exI[of _ ?s1]) simp
  qed
  have two: "\<exists>s'. run cfg (start (init (adds calls []))) (map (\<lambda>v. Succeed v None) vs @ Fail e # evs)
                        = Aborted (asError e) s'
                 \<and> onEnter cfg (adds calls []) (map (\<lambda>v. Succeed v None) vs @ Fail e # evs) fin
                        = Failed (asError e)
                 \<and> executed s' = pre @ [tid]
                 \<and> dom (taskResults s') = set pre - {''__proto__''}
                 \<and> tid \<notin> set pre \<and> set post \<inter> set pre = {}"
    if k: "keys (adds calls []) = pre @ tid # post" and len: "length vs = length pre"
  proof -
    let ?reg = "adds calls []"
    let ?evs = "map (\<lambda>v. Succeed v None) vs"
    let ?s = "init ?reg :: ('g, 'v) state"
    have d: "distinct (pre @ tid # post)"
      using distinct_keys_adds[of "[]" calls] k by (simp add: keys_def)
    have l: "length pre = length ?evs" using len by simp
    have st: "taskStack ?s = pre @ (tid # post)" using k by simp
    have regd: "\<forall>t\<in>set (pre @ tid # post). map_of ?reg t \<noteq> None"
      using registered_keys[of ?reg] k by simp
    then have reg: "\<forall>t\<in>set pre. map_of (registeredFactories ?s) t \<noteq> None" by simp
    have rec: "\<forall>ev\<in>set ?evs. recorded cfg ev \<noteq> None" by auto
    from segment[OF l st reg rec, of "Fail e # evs"] obtain s1 where
      s1: "run cfg (start ?s) (?evs @ Fail e # evs) = run cfg (start s1) (Fail e # evs)"
        "taskStack s1 = tid # post"
        "registeredFactories s1 = registeredFactories ?s"
        "taskResults s1 = obj_sets (taskResults ?s) pre (map (\<lambda>ev. the (recorded cfg ev)) ?evs)"
        "executed s1 = executed ?s @ pre"
      by auto
    have "map_of (registeredFactories s1) tid \<noteq> None"
      using regd s1(3) by simp
    from one[OF s1(2) this, of evs] obtain s' where
      s': "run cfg (start s1) (Fail e # evs) = Aborted (asError e) s'"
        "executed s' = executed s1 @ [tid]"
        "taskResults s' = taskResults s1"
      by auto
    have dom: "dom (taskResults s') = set pre - {''__proto__''}"
      using s'(3) s1(4) len by (simp add: dom_obj_sets)
    have r: "run cfg (start ?s) (?evs @ Fail e # evs) = Aborted (asError e) s'"
      using s1(1) s'(1) by simp
    have ex: "executed s' = pre @ [tid]"
      using s'(2) s1(5) by simp
    have no: "tid \<notin> set pre \<and> set post \<inter> set pre = {}"
      using d by auto
    show ?thesis
      using r ex dom no by (intro exI[of _ s']) (simp add: onEnter_def)
  qed
  show ?thesis
  proof (intro conjI impI)
    assume "taskStack s = tid # rest \<and> map_of (registeredFactories s) tid \<noteq> None"
    then show "\<exists>s'. run cfg (start s) (Fail e # evs) = Aborted (asError e) s'
                 \<and> conclude cfg fin (run cfg (start s) (Fail e # evs)) = Failed (asError e)
                 \<and> (instanceof_Error e \<longrightarrow> asError e = e)
                 \<and> executed s' = executed s @ [tid]
                 \<and> taskStack s' = rest
                 \<and> taskResults s' = taskResults s"
      using one[of s rest evs] by simp
  next
    assume "keys (adds calls []) = pre @ tid # post \<and> length vs = length pre"
    then show "\<exists>s'. run cfg (start (init (adds calls []))) (map (\<lambda>v. Succeed v None) vs @ Fail e # evs)
                        = Aborted (asError e) s'
                 \<and> onEnter cfg (adds calls []) (map (\<lambda>v. Succeed v None) vs @ Fail e # evs) fin
                        = Failed (asError e)
                 \<and> executed s' = pre @ [tid]
                 \<and> dom (taskResults s') = set pre - {''__proto__''}
                 \<and> tid \<notin> set pre \<and> set post \<inter> set pre = {}"
      using two by simp
  qed
qed


theorem fail_fast_aborts_witness:
  "\<not> returnExceptions \<lparr>summarizeChatCtx = False, returnExceptions = False, hasCallback = False\<rparr>
   \<and> \<not> instanceof_OutOfScopeError (Error ''propagated-error'')
   \<and> taskStack (init (adds [((), ''fail'', ''Fails''), ((), ''never'', ''Never reached'')] []) :: (unit, nat) state)
       = ''fail'' # [''never'']
   \<and> (\<exists>s'. run \<lparr>summarizeChatCtx = False, returnExceptions = False, hasCallback = False\<rparr>
           (start (init (adds [((), ''fail'', ''Fails''), ((), ''never'', ''Never reached'')] [])))
           [Fail (Error ''propagated-error''), Succeed (0::nat) None] = Aborted (Error ''propagated-error'') s'
         \<and> executed s' = [''fail''] \<and> taskStack s' = [''never''] \<and> taskResults s' = Map.empty)
   \<and> keys (adds [((), ''ok'', ''Succeeds''), ((), ''fail'', ''Fails''), ((), ''never'', ''Never reached'')] [])
       = [''ok''] @ ''fail'' # [''never'']
   \<and> (\<exists>s'. run \<lparr>summarizeChatCtx = False, returnExceptions = False, hasCallback = False\<rparr>
           (start (init (adds [((), ''ok'', ''Succeeds''), ((), ''fail'', ''Fails''), ((), ''never'', ''Never reached'')] [])))
           [Succeed (1::nat) None, Fail (Error ''propagated-error''), Succeed 0 None]
           = Aborted (Error ''propagated-error'') s'
         \<and> executed s' = [''ok'', ''fail''] \<and> dom (taskResults s') = {''ok''})"
  using fail_fast_aborts[of
      "\<lparr>summarizeChatCtx = False, returnExceptions = False, hasCallback = False\<rparr>"
      "Error ''propagated-error''"
      "init (adds [((), ''fail'', ''Fails''), ((), ''never'', ''Never reached'')] []) :: (unit, nat) state"
      "''fail''" "[''never'']" "[Succeed (0::nat) None]" NoStandardLLM
      "[((), ''ok'', ''Succeeds''), ((), ''fail'', ''Fails''), ((), ''never'', ''Never reached'')]"
      "[''ok'']" "[''never'']" "[1::nat]"]
  by (auto simp add: keys_def add_def)

theorem fail_fast_after_regression_counterexample:
  "conclude \<lparr>summarizeChatCtx = False, returnExceptions = False, hasCallback = False\<rparr> Summarized
     (run \<lparr>summarizeChatCtx = False, returnExceptions = False, hasCallback = False\<rparr>
        (start (init (adds [((), ''a'', ''A''), ((), ''b'', ''B'')] [])))
        [Succeed (1::nat) None, Invoke [''a''], Fail (Error ''boom'')])
     = Failed (Error ''boom'')
   \<and> executed (state_of
        (run \<lparr>summarizeChatCtx = False, returnExceptions = False, hasCallback = False\<rparr>
          (start (init (adds [((), ''a'', ''A''), ((), ''b'', ''B'')] [])))
          [Succeed (1::nat) None, Invoke [''a''], Fail (Error ''boom'')]))
     = [''a'', ''b'', ''a'']
   \<and> taskResults (state_of
        (run \<lparr>summarizeChatCtx = False, returnExceptions = False, hasCallback = False\<rparr>
          (start (init (adds [((), ''a'', ''A''), ((), ''b'', ''B'')] [])))
          [Succeed (1::nat) None, Invoke [''a''], Fail (Error ''boom'')])) ''a''
     = Some (Value 1)"
  by (simp add: run_defs)

section \<open>A failure of the completion callback\<close>

text \<open>
  C1, as the code has it. The completion callback is called inside the \<^verbatim>\<open>try\<close> block, so a
  failure \<open>e\<close> it raises after the task \<open>tid\<close> succeeded with \<open>v\<close> meets the same \<^verbatim>\<open>catch\<close> as a
  failure of the task. Under fail-fast the run aborts at once with \<open>e\<close> as its outcome (a
  new \<^verbatim>\<open>Error\<close> of its rendering when \<open>e\<close> is not an \<^verbatim>\<open>Error\<close>), no further queued task runs,
  and the entry of \<open>tid\<close> stays the value \<open>v\<close>. Under collect-and-continue \<open>e\<close> replaces \<open>v\<close> as
  the entry of \<open>tid\<close> and the loop goes back to the loop test with the rest of the queue.
  What is said of the entry of \<open>tid\<close> is for a \<open>tid\<close> other than \<^verbatim>\<open>__proto__\<close>.
\<close>

theorem callback_failure_follows_policy:
  assumes "hasCallback cfg"
    and "taskStack s = tid # rest"
    and "map_of (registeredFactories s) tid \<noteq> None"
    and "\<not> instanceof_OutOfScopeError e"
  shows "(\<not> returnExceptions cfg
          \<longrightarrow> (\<exists>s'. run cfg (start s) (Succeed v (Some e) # evs) = Aborted (asError e) s'
                 \<and> conclude cfg fin (run cfg (start s) (Succeed v (Some e) # evs)) = Failed (asError e)
                 \<and> executed s' = executed s @ [tid]
                 \<and> taskStack s' = rest
                 \<and> callbackLog s' = callbackLog s @ [(tid, v)]
                 \<and> (tid \<noteq> ''__proto__'' \<longrightarrow> taskResults s' = (taskResults s)(tid \<mapsto> Value v))))
       \<and> (returnExceptions cfg
          \<longrightarrow> (\<exists>s'. step cfg tid (begin_task s tid rest) (Succeed v (Some e)) = start s'
                 \<and> run cfg (start s) (Succeed v (Some e) # evs) = run cfg (start s') evs
                 \<and> executed s' = executed s @ [tid]
                 \<and> taskStack s' = rest
                 \<and> callbackLog s' = callbackLog s @ [(tid, v)]
                 \<and> (tid \<noteq> ''__proto__'' \<longrightarrow> taskResults s' = (taskResults s)(tid \<mapsto> Caught e))))"
proof -
  from assms(3) obtain info where info: "map_of (registeredFactories s) tid = Some info" by auto
  let ?s1 = "complete_current (begin_task s tid rest) (Resolved v)"
  let ?s2 = "?s1\<lparr>taskResults := obj_set (taskResults ?s1) tid (Value v),
                 callbackLog := callbackLog ?s1 @ [(tid, v)]\<rparr>"
  show ?thesis
  proof (intro conjI impI)
    assume ff: "\<not> returnExceptions cfg"
    have "step cfg tid (begin_task s tid rest) (Succeed v (Some e)) = Aborted (asError e) ?s2"
      using assms(1,4) ff by (simp add: await_run_begin settle_Resolved catch_block_def)
    then have r: "run cfg (start s) (Succeed v (Some e) # evs) = Aborted (asError e) ?s2"
      by (cases evs) (simp_all add: start_Cons[OF assms(2) info])
    show "\<exists>s'. run cfg (start s) (Succeed v (Some e) # evs) = Aborted (asError e) s'
                 \<and> conclude cfg fin (run cfg (start s) (Succeed v (Some e) # evs)) = Failed (asError e)
                 \<and> executed s' = executed s @ [tid]
                 \<and> taskStack s' = rest
                 \<and> callbackLog s' = callbackLog s @ [(tid, v)]
                 \<and> (tid \<noteq> ''__proto__'' \<longrightarrow> taskResults s' = (taskResults s)(tid \<mapsto> Value v))"
      using r by (intro exI[of _ ?s2]) (simp add: obj_set_other)
  next
    assume cc: "returnExceptions cfg"
    have rec: "recorded cfg (Succeed v (Some e)) = Some (Caught e)"
      using assms(1,4) cc by simp
    from iteration_recorded[OF rec, of tid s rest] obtain s' where
      s': "step cfg tid (begin_task s tid rest) (Succeed v (Some e)) = start s'"
        "taskStack s' = rest" "taskResults s' = obj_set (taskResults s) tid (Caught e)"
        "executed s' = executed s @ [tid]"
        "callbackLog s' = callbackLog s @ fired cfg tid (Succeed v (Some e))"
      by blast
    have r: "run cfg (start s) (Succeed v (Some e) # evs) = run cfg (start s') evs"
      using s'(1) by (simp add: start_Cons[OF assms(2) info])
    show "\<exists>s'. step cfg tid (begin_task s tid rest) (Succeed v (Some e)) = start s'
                 \<and> run cfg (start s) (Succeed v (Some e) # evs) = run cfg (start s') evs
                 \<and> executed s' = executed s @ [tid]
                 \<and> taskStack s' = rest
                 \<and> callbackLog s' = callbackLog s @ [(tid, v)]
                 \<and> (tid \<noteq> ''__proto__'' \<longrightarrow> taskResults s' = (taskResults s)(tid \<mapsto> Caught e))"
      using s' r assms(1) by (intro exI[of _ s']) (simp add: obj_set_other)
  qed
qed

theorem callback_failure_follows_policy_witness:
  "hasCallback \<lparr>summarizeChatCtx = False, returnExceptions = False, hasCallback = True\<rparr>
   \<and> hasCallback \<lparr>summarizeChatCtx = False, returnExceptions = True, hasCallback = True\<rparr>
   \<and> taskStack (init (adds [((), ''a'', ''A''), ((), ''b'', ''B'')] []) :: (unit, nat) state) = ''a'' # [''b'']
   \<and> \<not> instanceof_OutOfScopeError (Error ''cb'')
   \<and> (\<exists>s'. run \<lparr>summarizeChatCtx = False, returnExceptions = False, hasCallback = True\<rparr>
           (start (init (adds [((), ''a'', ''A''), ((), ''b'', ''B'')] [])))
           [Succeed (1::nat) (Some (Error ''cb'')), Succeed 2 None] = Aborted (Error ''cb'') s'
         \<and> executed s' = [''a''] \<and> taskStack s' = [''b''] \<and> callbackLog s' = [(''a'', 1)]
         \<and> taskResults s' = [''a'' \<mapsto> Value 1])
   \<and> (\<exists>s'. step \<lparr>summarizeChatCtx = False, returnExceptions = True, hasCallback = True\<rparr> ''a''
           (begin_task (init (adds [((), ''a'', ''A''), ((), ''b'', ''B'')] [])) ''a'' [''b''])
           (Succeed (1::nat) (Some (Error ''cb''))) = start s'
         \<and> executed s' = [''a''] \<and> taskStack s' = [''b''] \<and> callbackLog s' = [(''a'', 1)]
         \<and> taskResults s' = [''a'' \<mapsto> Caught (Error ''cb'')])"
  using callback_failure_follows_policy[of
      "\<lparr>summarizeChatCtx = False, returnExceptions = False, hasCallback = True\<rparr>"
      "init (adds [((), ''a'', ''A''), ((), ''b'', ''B'')] []) :: (unit, nat) state"
      "''a''" "[''b'']" "Error ''cb''" 1 "[Succeed 2 None]" Summarized]
    callback_failure_follows_policy[of
      "\<lparr>summarizeChatCtx = False, returnExceptions = True, hasCallback = True\<rparr>"
      "init (adds [((), ''a'', ''A''), ((), ''b'', ''B'')] []) :: (unit, nat) state"
      "''a''" "[''b'']" "Error ''cb''" 1 "[Succeed 2 None]" Summarized]
  by (auto simp add: keys_def add_def)

theorem callback_failure_collected_counterexample:
  "onEnter \<lparr>summarizeChatCtx = False, returnExceptions = True, hasCallback = True\<rparr>
     (adds [((), ''a'', ''A''), ((), ''b'', ''B'')] [])
     [Succeed (1::nat) (Some (Error ''cb'')), Succeed 2 None] Summarized
     = Completed [''a'' \<mapsto> Caught (Error ''cb''), ''b'' \<mapsto> Value 2]
   \<and> executed (state_of
        (run \<lparr>summarizeChatCtx = False, returnExceptions = True, hasCallback = True\<rparr>
          (start (init (adds [((), ''a'', ''A''), ((), ''b'', ''B'')] [])))
          [Succeed (1::nat) (Some (Error ''cb'')), Succeed 2 None]))
     = [''a'', ''b'']"
  by (simp add: onEnter_def finalize_def run_defs)

section \<open>The regression tool\<close>

lemma first_invalid_None_iff:
  "first_invalid s ids = None \<longleftrightarrow>
     (\<forall>t\<in>set ids. map_of (registeredFactories s) t \<noteq> None \<and> t \<in> set (visitedTasks s))"
  by (induction ids) auto

lemma first_invalid_Some:
  "first_invalid s ids = Some tid \<Longrightarrow>
     \<exists>pre post. ids = pre @ tid # post
       \<and> (\<forall>t\<in>set pre. map_of (registeredFactories s) t \<noteq> None \<and> t \<in> set (visitedTasks s))
       \<and> (map_of (registeredFactories s) tid = None \<or> tid \<notin> set (visitedTasks s))"
proof (induction ids)
  case Nil
  then show ?case by simp
next
  case (Cons a ids)
  show ?case
  proof (cases "map_of (registeredFactories s) a = None \<or> a \<notin> set (visitedTasks s)")
    case True
    then have "a = tid" using Cons.prems by auto
    then show ?thesis using True by (intro exI[of _ "[]"] exI[of _ ids]) simp
  next
    case False
    then have "first_invalid s ids = Some tid" using Cons.prems by auto
    from Cons.IH[OF this] obtain pre post where
      "ids = pre @ tid # post"
      "\<forall>t\<in>set pre. map_of (registeredFactories s) t \<noteq> None \<and> t \<in> set (visitedTasks s)"
      "map_of (registeredFactories s) tid = None \<or> tid \<notin> set (visitedTasks s)"
      by blast
    then show ?thesis using False by (intro exI[of _ "a # pre"] exI[of _ post]) auto
  qed
qed

lemma set_Set_delete [simp]: "set (Set_delete x xs) = set xs - {x}"
  by (auto simp: Set_delete_def)

lemma buildOutOfScopeTool_None_iff:
  "buildOutOfScopeTool s a = None \<longleftrightarrow> set (visitedTasks s) - {a} = {}"
proof -
  have "Set_delete a (visitedTasks s) = [] \<longleftrightarrow> set (visitedTasks s) - {a} = {}"
    by (metis set_Set_delete set_empty)
  then show ?thesis
    by (auto simp: buildOutOfScopeTool_def Let_def)
qed

lemma buildOutOfScopeTool_Some:
  "buildOutOfScopeTool s a = Some tool \<Longrightarrow>
     set (taskIdValues tool) = set (visitedTasks s) - {a} \<and> boundTask tool = currentTask s"
  by (auto simp: buildOutOfScopeTool_def Let_def split: if_splits)

lemma call_tool_fits:
  "set ids \<subseteq> set (taskIdValues tool) \<Longrightarrow> call_tool tool s ids = execute tool s ids"
proof -
  assume "set ids \<subseteq> set (taskIdValues tool)"
  then have "find (\<lambda>i. i \<notin> set (taskIdValues tool)) ids = None"
    by (auto simp: find_None_iff)
  then show ?thesis by (simp add: call_tool_def)
qed

lemma step_Invoke_begin:
  assumes "set (visitedTasks s) - {tid} \<noteq> {}"
    and "\<forall>t\<in>set T. map_of (registeredFactories s) t \<noteq> None \<and> t \<in> set (visitedTasks s) \<and> t \<noteq> tid"
  shows "step cfg tid (begin_task s tid rest) (Invoke T)
       = step cfg tid (begin_task s tid rest) (Fail (OutOfScopeError T))"
proof -
  let ?s0 = "s\<lparr>currentTask := Some (length (heap s))\<rparr>"
  let ?b = "begin_task s tid rest"
  from assms(1) obtain tool where tool: "buildOutOfScopeTool ?s0 tid = Some tool"
    using buildOutOfScopeTool_None_iff[of ?s0 tid] by auto
  have bound: "boundTask tool = Some (length (heap s))"
    and enum: "set (taskIdValues tool) = set (visitedTasks s) - {tid}"
    using buildOutOfScopeTool_Some[OF tool] by simp_all
  have cur: "current ?b = Some \<lparr>fut = None, out_of_scope = Some tool\<rparr>"
    by (simp add: current_begin_task tool)
  have valid: "first_invalid ?b T = None"
    using assms(2) by (simp add: first_invalid_None_iff)
  have at: "task_at ?b (length (heap s)) = Some \<lparr>fut = None, out_of_scope = Some tool\<rparr>"
    using cur by (simp add: current_def)
  have "set T \<subseteq> set (taskIdValues tool)"
    using assms(2) enum by auto
  then have "call_tool tool ?b T = execute tool ?b T"
    by (rule call_tool_fits)
  moreover have "snd (execute tool ?b T) = complete_current ?b (Rejected (OutOfScopeError T))"
    by (simp add: execute_def valid bound at is_done_def complete_current_def)
  ultimately show ?thesis
    by (simp add: cur installed_tool_def)
qed

section \<open>Regression\<close>





section \<open>Calls of the tool\<close>

lemma execute_rejects:
  assumes "first_invalid s ids = Some bad"
  shows "execute tool s ids = (Inl (ToolError (''Unable to regress, invalid task id '' @ bad)), s)"
  by (simp add: execute_def assms)

text \<open>
  C3. Let \<open>tid\<close> be taken from the front of the queue and a tool be installed on its task.
  A call of that tool, while the task runs, with a list holding an id that is not
  registered, was not visited before, or is \<open>tid\<close> itself, is rejected with an error that
  names such an id of the list (the refusal of the arguments for an id outside the
  tool's enumeration, else the \<^verbatim>\<open>ToolError\<close> of \<^verbatim>\<open>execute\<close>); the whole state is left as it
  was, so the task is not completed with the regression signal and the queue and the
  visited set are unchanged, and the loop keeps awaiting the task.
\<close>

theorem ineligible_call_rejected:
  assumes "installed_tool (begin_task s tid rest) = Some tool"
    and "\<exists>t\<in>set ids. map_of (registeredFactories s) t = None \<or> t \<notin> set (visitedTasks s) \<or> t = tid"
  shows "\<exists>bad\<in>set ids.
           (map_of (registeredFactories s) bad = None \<or> bad \<notin> set (visitedTasks s) \<or> bad = tid)
         \<and> (fst (call_tool tool (begin_task s tid rest) ids) = Inl (ArgumentError bad)
              \<or> fst (call_tool tool (begin_task s tid rest) ids)
                  = Inl (ToolError (''Unable to regress, invalid task id '' @ bad)))
         \<and> snd (call_tool tool (begin_task s tid rest) ids) = begin_task s tid rest
         \<and> step cfg tid (begin_task s tid rest) (Invoke ids) = Running tid (begin_task s tid rest)"
proof -
  let ?b = "begin_task s tid rest"
  from assms(1) have built: "buildOutOfScopeTool (s\<lparr>currentTask := Some (length (heap s))\<rparr>) tid = Some tool"
    by (simp add: installed_tool_def current_begin_task)
  have enum: "set (taskIdValues tool) = set (visitedTasks s) - {tid}"
    using buildOutOfScopeTool_Some[OF built] by simp
  have cur: "current ?b = Some \<lparr>fut = None, out_of_scope = Some tool\<rparr>"
    by (simp add: current_begin_task built)
  have waits: "await_run cfg tid ?b None = Running tid ?b"
    by (simp add: await_run_def cur)
  have stay: "step cfg tid ?b (Invoke ids) = Running tid ?b"
    if "snd (call_tool tool ?b ids) = ?b"
    using that assms(1) waits by simp
  show ?thesis
  proof (cases "find (\<lambda>i. i \<notin> set (taskIdValues tool)) ids")
    case (Some bad)
    then have "bad \<in> set ids" and "bad \<notin> set (taskIdValues tool)"
      by (auto simp: find_Some_iff)
    then have inel: "bad \<notin> set (visitedTasks s) \<or> bad = tid"
      using enum by auto
    have call: "call_tool tool ?b ids = (Inl (ArgumentError bad), ?b)"
      by (simp add: call_tool_def Some)
    show ?thesis
      using \<open>bad \<in> set ids\<close> inel call stay by (intro bexI[of _ bad]) simp_all
  next
    case None
    then have fits: "set ids \<subseteq> set (taskIdValues tool)"
      by (auto simp: find_None_iff)
    then have vis: "\<forall>t\<in>set ids. t \<in> set (visitedTasks s) \<and> t \<noteq> tid"
      using enum by auto
    with assms(2) have "\<exists>t\<in>set ids. map_of (registeredFactories ?b) t = None"
      by auto
    then have "first_invalid ?b ids \<noteq> None"
      by (auto simp: first_invalid_None_iff)
    then obtain bad where bad: "first_invalid ?b ids = Some bad" by auto
    from first_invalid_Some[OF bad] obtain pre post where
      sp: "ids = pre @ bad # post"
        "map_of (registeredFactories ?b) bad = None \<or> bad \<notin> set (visitedTasks ?b)"
      by blast
    have mem: "bad \<in> set ids" using sp(1) by simp
    have unreg: "map_of (registeredFactories s) bad = None"
      using sp(2) vis mem by auto
    have call: "call_tool tool ?b ids
        = (Inl (ToolError (''Unable to regress, invalid task id '' @ bad)), ?b)"
      using call_tool_fits[OF fits, of ?b] execute_rejects[OF bad, of tool] by simp
    show ?thesis
      using mem unreg call stay by (intro bexI[of _ bad]) simp_all
  qed
qed

theorem ineligible_call_rejected_witness:
  "map_option taskIdValues (installed_tool (begin_task ((init (adds [((), ''a'', ''A''), ((), ''b'', ''B'')] []))\<lparr>taskStack := [''b''], visitedTasks := [''a'']\<rparr>
        :: (unit, nat) state) ''b'' [])) = Some [''a'']
   \<and> fst (call_tool (the (installed_tool (begin_task ((init (adds [((), ''a'', ''A''), ((), ''b'', ''B'')] []))\<lparr>taskStack := [''b''], visitedTasks := [''a'']\<rparr>
        :: (unit, nat) state) ''b'' []))) (begin_task ((init (adds [((), ''a'', ''A''), ((), ''b'', ''B'')] []))\<lparr>taskStack := [''b''], visitedTasks := [''a'']\<rparr>
        :: (unit, nat) state) ''b'' []) [''a'', ''b''])
       = Inl (ArgumentError ''b'')
   \<and> (\<exists>bad. (bad = ''a'' \<or> bad = ''b'')
         \<and> snd (call_tool (the (installed_tool (begin_task ((init (adds [((), ''a'', ''A''), ((), ''b'', ''B'')] []))\<lparr>taskStack := [''b''], visitedTasks := [''a'']\<rparr>
        :: (unit, nat) state) ''b'' []))) (begin_task ((init (adds [((), ''a'', ''A''), ((), ''b'', ''B'')] []))\<lparr>taskStack := [''b''], visitedTasks := [''a'']\<rparr>
        :: (unit, nat) state) ''b'' []) [''a'', ''b''])
             = (begin_task ((init (adds [((), ''a'', ''A''), ((), ''b'', ''B'')] []))\<lparr>taskStack := [''b''], visitedTasks := [''a'']\<rparr>
        :: (unit, nat) state) ''b'' [])
         \<and> step \<lparr>summarizeChatCtx = False, returnExceptions = False, hasCallback = False\<rparr> ''b'' (begin_task ((init (adds [((), ''a'', ''A''), ((), ''b'', ''B'')] []))\<lparr>taskStack := [''b''], visitedTasks := [''a'']\<rparr>
        :: (unit, nat) state) ''b'' []) (Invoke [''a'', ''b''])
             = Running ''b'' (begin_task ((init (adds [((), ''a'', ''A''), ((), ''b'', ''B'')] []))\<lparr>taskStack := [''b''], visitedTasks := [''a'']\<rparr>
        :: (unit, nat) state) ''b'' []))"
proof -
  let ?s = "((init (adds [((), ''a'', ''A''), ((), ''b'', ''B'')] []))\<lparr>taskStack := [''b''], visitedTasks := [''a'']\<rparr>
        :: (unit, nat) state)"
  let ?b = "begin_task ?s ''b'' []"
  have i: "map_option taskIdValues (installed_tool ?b) = Some [''a'']"
    by (simp add: run_defs)
  then obtain tool where tool: "installed_tool ?b = Some tool"
    by auto
  have h: "\<exists>t\<in>set [''a'', ''b'']. map_of (registeredFactories ?s) t = None
      \<or> t \<notin> set (visitedTasks ?s) \<or> t = ''b''"
    by simp
  have c: "fst (call_tool (the (installed_tool ?b)) ?b [''a'', ''b'']) = Inl (ArgumentError ''b'')"
    using i tool by (auto simp: call_tool_def)
  from ineligible_call_rejected[OF tool h, of "\<lparr>summarizeChatCtx = False, returnExceptions = False, hasCallback = False\<rparr>"] tool i c
  show ?thesis by auto
qed

text \<open>
  C10. A call of \<^verbatim>\<open>execute\<close> whose ids all pass the check, made when the task instance the
  tool is bound to is already done, returns normally and leaves the whole state as it was:
  no instance is completed, and the queue, the visited set and the results are unchanged.
\<close>

theorem execute_noop_when_done:
  assumes "\<forall>t\<in>set ids. map_of (registeredFactories s) t \<noteq> None \<and> t \<in> set (visitedTasks s)"
    and "boundTask tool = Some r"
    and "task_at s r = Some t"
    and "is_done t"
  shows "execute tool s ids = (Inr (), s)"
  using assms by (simp add: execute_def first_invalid_None_iff[THEN iffD2])


theorem execute_noop_when_done_witness:
  "boundTask (the (installed_tool (state_of (run \<lparr>summarizeChatCtx = False, returnExceptions = False, hasCallback = False\<rparr>
        (start (init (adds [((), ''a'', ''A''), ((), ''b'', ''B'')] []))) [Succeed (1::nat) None])))) = Some 1
   \<and> map_option is_done (task_at (complete_current (state_of (run \<lparr>summarizeChatCtx = False, returnExceptions = False, hasCallback = False\<rparr>
        (start (init (adds [((), ''a'', ''A''), ((), ''b'', ''B'')] []))) [Succeed (1::nat) None])) (Resolved 2)) 1) = Some True
   \<and> execute (the (installed_tool (state_of (run \<lparr>summarizeChatCtx = False, returnExceptions = False, hasCallback = False\<rparr>
        (start (init (adds [((), ''a'', ''A''), ((), ''b'', ''B'')] []))) [Succeed (1::nat) None]))))
        (complete_current (state_of (run \<lparr>summarizeChatCtx = False, returnExceptions = False, hasCallback = False\<rparr>
        (start (init (adds [((), ''a'', ''A''), ((), ''b'', ''B'')] []))) [Succeed (1::nat) None])) (Resolved 2)) [''a'']
      = (Inr (), complete_current (state_of (run \<lparr>summarizeChatCtx = False, returnExceptions = False, hasCallback = False\<rparr>
        (start (init (adds [((), ''a'', ''A''), ((), ''b'', ''B'')] []))) [Succeed (1::nat) None])) (Resolved 2))"
proof -
  let ?s1 = "(state_of (run \<lparr>summarizeChatCtx = False, returnExceptions = False, hasCallback = False\<rparr>
        (start (init (adds [((), ''a'', ''A''), ((), ''b'', ''B'')] []))) [Succeed (1::nat) None]))"
  let ?s = "complete_current ?s1 (Resolved 2)"
  let ?t = "\<lparr>fut = Some (Resolved (2::nat)), out_of_scope = installed_tool ?s1\<rparr>"
  have v: "\<forall>t\<in>set [''a'']. map_of (registeredFactories ?s) t \<noteq> None \<and> t \<in> set (visitedTasks ?s)"
    by (simp add: run_defs)
  have b: "boundTask (the (installed_tool ?s1)) = Some 1"
    by (simp add: run_defs)
  have a: "task_at ?s 1 = Some ?t"
    by (simp add: run_defs)
  have d: "is_done ?t"
    by (simp add: is_done_def)
  from execute_noop_when_done[OF v b a d] b a d
  show ?thesis by simp
qed

section \<open>The visited set\<close>

lemma visited_start: "set (visitedTasks s) \<subseteq> set (visitedTasks (state_of (start s)))"
  by (auto simp: start_def split: list.splits option.splits)

lemma visited_catch_block:
  "set (visitedTasks s) \<subseteq> set (visitedTasks (state_of (catch_block cfg tid s e)))"
proof -
  have "set (visitedTasks s) \<subseteq> set (visitedTasks (state_of (start (s\<lparr>taskStack := q\<rparr>))))" for q
    using visited_start[of "s\<lparr>taskStack := q\<rparr>"] by simp
  moreover have "set (visitedTasks s) \<subseteq> set (visitedTasks (state_of (start (s\<lparr>taskResults := m\<rparr>))))" for m
    using visited_start[of "s\<lparr>taskResults := m\<rparr>"] by simp
  ultimately show ?thesis
    by (simp add: catch_block_def)
qed

lemma visited_settle:
  "set (visitedTasks s) \<subseteq> set (visitedTasks (state_of (settle cfg tid s r cb)))"
proof (cases r)
  case (Rejected e)
  then show ?thesis by (simp add: settle_Rejected visited_catch_block)
next
  case (Resolved v)
  let ?s1 = "s\<lparr>taskResults := obj_set (taskResults s) tid (Value v)\<rparr>"
  let ?s2 = "?s1\<lparr>callbackLog := callbackLog s @ [(tid, v)]\<rparr>"
  have a: "set (visitedTasks s) \<subseteq> set (visitedTasks (state_of (start ?s1)))"
    using visited_start[of ?s1] by simp
  have b: "set (visitedTasks s) \<subseteq> set (visitedTasks (state_of (start ?s2)))"
    using visited_start[of ?s2] by simp
  have c: "set (visitedTasks s) \<subseteq> set (visitedTasks (state_of (catch_block cfg tid ?s2 e)))" for e
    using visited_catch_block[of ?s2 cfg tid e] by simp
  show ?thesis
    using a b c by (simp add: Resolved settle_Resolved Let_def split: option.splits)
qed

lemma visited_await_run:
  "set (visitedTasks s) \<subseteq> set (visitedTasks (state_of (await_run cfg tid s cb)))"
  by (simp add: await_run_def visited_settle split: option.splits)

lemma execute_frame:
  "visitedTasks (snd (execute tool s ids)) = visitedTasks s"
  "taskStack (snd (execute tool s ids)) = taskStack s"
  "taskResults (snd (execute tool s ids)) = taskResults s"
  "registeredFactories (snd (execute tool s ids)) = registeredFactories s"
  by (simp_all add: execute_def split: option.splits)

lemma call_tool_visited: "visitedTasks (snd (call_tool tool s ids)) = visitedTasks s"
  by (simp add: call_tool_def execute_frame split: option.splits)

lemma visited_step:
  "set (visitedTasks s) \<subseteq> set (visitedTasks (state_of (step cfg tid s ev)))"
proof (cases ev)
  case (Succeed v cb)
  then show ?thesis
    using visited_await_run[of "complete_current s (Resolved v)" cfg tid cb] by simp
next
  case (Fail e)
  then show ?thesis
    using visited_await_run[of "complete_current s (Rejected e)" cfg tid None] by simp
next
  case (Invoke ids)
  show ?thesis
  proof (cases "installed_tool s")
    case None
    then show ?thesis using Invoke by simp
  next
    case (Some tool)
    then show ?thesis
      using Invoke visited_await_run[of "snd (call_tool tool s ids)" cfg tid None]
      by (simp add: call_tool_visited)
  qed
qed

lemma visited_run:
  "set (visitedTasks (state_of c)) \<subseteq> set (visitedTasks (state_of (run cfg c evs)))"
proof (induction evs arbitrary: c)
  case Nil
  then show ?case by simp
next
  case (Cons ev evs)
  show ?case
  proof (cases c)
    case (Running tid s)
    have "set (visitedTasks s) \<subseteq> set (visitedTasks (state_of (step cfg tid s ev)))"
      by (rule visited_step)
    also have "\<dots> \<subseteq> set (visitedTasks (state_of (run cfg (step cfg tid s ev) evs)))"
      by (rule Cons.IH)
    finally show ?thesis using Running by simp
  qed simp_all
qed

text \<open>
  C7. When the loop takes \<open>tid\<close> from the front of the queue, the state in which \<^verbatim>\<open>run()\<close> is
  awaited already has \<open>tid\<close> in the visited set, with the new instance not yet done; the
  tool installed on that instance, if any, enumerates the ids visited before without \<open>tid\<close>,
  so never \<open>tid\<close> itself. No step removes an id from the visited set: not the loop test and
  the start of an iteration, not the handling of any event, not a whole run of events,
  and a call of the tool's \<^verbatim>\<open>execute\<close> leaves the set as it is.
\<close>

theorem visited_before_run_and_monotone:
  "(taskStack s = tid # rest \<and> map_of (registeredFactories s) tid \<noteq> None
      \<longrightarrow> start s = Running tid (begin_task s tid rest)
        \<and> tid \<in> set (visitedTasks (begin_task s tid rest))
        \<and> map_option fut (current (begin_task s tid rest)) = Some None
        \<and> (\<forall>tool. installed_tool (begin_task s tid rest) = Some tool
              \<longrightarrow> tid \<notin> set (taskIdValues tool)
                \<and> set (taskIdValues tool) = set (visitedTasks s) - {tid}))
   \<and> set (visitedTasks s) \<subseteq> set (visitedTasks (state_of (start s)))
   \<and> set (visitedTasks s) \<subseteq> set (visitedTasks (state_of (step cfg tid s ev)))
   \<and> set (visitedTasks (state_of c)) \<subseteq> set (visitedTasks (state_of (run cfg c evs)))
   \<and> visitedTasks (snd (execute a_tool s ids)) = visitedTasks s"
proof -
  have tool: "tid \<notin> set (taskIdValues tool) \<and> set (taskIdValues tool) = set (visitedTasks s) - {tid}"
    if "installed_tool (begin_task s tid rest) = Some tool" for tool
  proof -
    from that have "buildOutOfScopeTool (s\<lparr>currentTask := Some (length (heap s))\<rparr>) tid = Some tool"
      by (simp add: installed_tool_def current_begin_task)
    from buildOutOfScopeTool_Some[OF this] show ?thesis by auto
  qed
  have first: "start s = Running tid (begin_task s tid rest)
        \<and> tid \<in> set (visitedTasks (begin_task s tid rest))
        \<and> map_option fut (current (begin_task s tid rest)) = Some None"
    if "taskStack s = tid # rest" "map_of (registeredFactories s) tid \<noteq> None"
    using that by (auto simp: start_Cons current_begin_task)
  have iter: "taskStack s = tid # rest \<and> map_of (registeredFactories s) tid \<noteq> None
      \<longrightarrow> start s = Running tid (begin_task s tid rest)
        \<and> tid \<in> set (visitedTasks (begin_task s tid rest))
        \<and> map_option fut (current (begin_task s tid rest)) = Some None
        \<and> (\<forall>tool. installed_tool (begin_task s tid rest) = Some tool
              \<longrightarrow> tid \<notin> set (taskIdValues tool)
                \<and> set (taskIdValues tool) = set (visitedTasks s) - {tid})"
  proof (intro impI, elim conjE, intro conjI allI impI)
    fix tool
    assume "installed_tool (begin_task s tid rest) = Some tool"
    from tool[OF this] show "tid \<notin> set (taskIdValues tool)"
      and "set (taskIdValues tool) = set (visitedTasks s) - {tid}"
      by simp_all
  qed (simp_all add: first)
  show ?thesis
    by (intro conjI iter visited_start visited_step visited_run execute_frame(1))
qed


theorem visited_before_run_and_monotone_witness:
  "taskStack ((init (adds [((), ''a'', ''A''), ((), ''b'', ''B'')] []))\<lparr>taskStack := [''b''], visitedTasks := [''a'']\<rparr>
        :: (unit, nat) state) = ''b'' # []
   \<and> map_of (registeredFactories ((init (adds [((), ''a'', ''A''), ((), ''b'', ''B'')] []))\<lparr>taskStack := [''b''], visitedTasks := [''a'']\<rparr>
        :: (unit, nat) state)) ''b'' \<noteq> None
   \<and> ''b'' \<in> set (visitedTasks (begin_task ((init (adds [((), ''a'', ''A''), ((), ''b'', ''B'')] []))\<lparr>taskStack := [''b''], visitedTasks := [''a'']\<rparr>
        :: (unit, nat) state) ''b'' []))
   \<and> map_option fut (current (begin_task ((init (adds [((), ''a'', ''A''), ((), ''b'', ''B'')] []))\<lparr>taskStack := [''b''], visitedTasks := [''a'']\<rparr>
        :: (unit, nat) state) ''b'' [])) = Some None
   \<and> map_option taskIdValues (installed_tool (begin_task ((init (adds [((), ''a'', ''A''), ((), ''b'', ''B'')] []))\<lparr>taskStack := [''b''], visitedTasks := [''a'']\<rparr>
        :: (unit, nat) state) ''b'' [])) = Some [''a'']
   \<and> ''b'' \<notin> set (taskIdValues (the (installed_tool (begin_task ((init (adds [((), ''a'', ''A''), ((), ''b'', ''B'')] []))\<lparr>taskStack := [''b''], visitedTasks := [''a'']\<rparr>
        :: (unit, nat) state) ''b'' []))))"
proof -
  let ?s = "((init (adds [((), ''a'', ''A''), ((), ''b'', ''B'')] []))\<lparr>taskStack := [''b''], visitedTasks := [''a'']\<rparr>
        :: (unit, nat) state)"
  have q: "taskStack ?s = ''b'' # [] \<and> map_of (registeredFactories ?s) ''b'' \<noteq> None"
    by (simp add: run_defs)
  have i: "map_option taskIdValues (installed_tool (begin_task ?s ''b'' [])) = Some [''a'']"
    by (simp add: run_defs)
  then obtain tool where tool: "installed_tool (begin_task ?s ''b'' []) = Some tool"
    by auto
  from visited_before_run_and_monotone[where s = ?s and tid = "''b''" and rest = "[]"
      and cfg = "\<lparr>summarizeChatCtx = False, returnExceptions = False, hasCallback = False\<rparr>"
      and ev = "Fail TypeError" and c = "Drained ?s" and evs = "[]" and a_tool = tool and ids = "[]"]
    q tool i
  show ?thesis by simp
qed

section \<open>Finalization\<close>

text \<open>
  C8. With summarization enabled, when the loop has drained the queue and the
  summarization step fails (no standard LLM on the session, or a failure of the copy, the
  summarization or the update of the chat context), the outcome of \<^verbatim>\<open>onEnter\<close> is the failure
  whose message is \<^verbatim>\<open>failed to summarize the chat_ctx: \<close> followed by the rendering of the
  cause, whatever the result set holds; the result set is not delivered.
\<close>

theorem summarization_failure_is_fatal:
  assumes "summarizeChatCtx cfg"
    and "fin \<noteq> Summarized"
    and "run cfg (start (init reg)) evs = Drained s"
  shows "onEnter cfg reg evs fin
       = Failed (Error (''failed to summarize the chat_ctx: '' @
           (case fin of
              NoStandardLLM \<Rightarrow> ''Error: summarizeChatCtx requires a standard LLM on the session''
            | SummarizeThrows txt \<Rightarrow> txt
            | Summarized \<Rightarrow> [])))
       \<and> onEnter cfg reg evs fin \<noteq> Completed results
       \<and> finalize cfg results fin = onEnter cfg reg evs fin"
  using assms by (cases fin) (simp_all add: onEnter_def finalize_def)

theorem summarization_failure_is_fatal_witness:
  "summarizeChatCtx \<lparr>summarizeChatCtx = True, returnExceptions = True, hasCallback = False\<rparr>
   \<and> NoStandardLLM \<noteq> Summarized
   \<and> taskResults (state_of (run \<lparr>summarizeChatCtx = True, returnExceptions = True, hasCallback = False\<rparr>
         (start (init (adds [((), ''color'', ''Collects favorite color''), ((), ''food'', ''Collects favorite food'')] [])))
         [Succeed ''Blue'' None, Succeed ''pizza'' None])) ''food'' = Some (Value ''pizza'')
   \<and> onEnter \<lparr>summarizeChatCtx = True, returnExceptions = True, hasCallback = False\<rparr>
        (adds [((), ''color'', ''Collects favorite color''), ((), ''food'', ''Collects favorite food'')] [])
        [Succeed ''Blue'' None, Succeed ''pizza'' None] NoStandardLLM
      = Failed (Error ''failed to summarize the chat_ctx: Error: summarizeChatCtx requires a standard LLM on the session'')"
proof -
  let ?cfg = "\<lparr>summarizeChatCtx = True, returnExceptions = True, hasCallback = False\<rparr>"
  let ?reg = "adds [((), ''color'', ''Collects favorite color''), ((), ''food'', ''Collects favorite food'')] []"
  let ?evs = "[Succeed ''Blue'' None, Succeed ''pizza'' None]"
  let ?c = "run ?cfg (start (init ?reg)) ?evs"
  have d: "?c = Drained (state_of ?c)"
    by (simp add: run_defs)
  have r: "taskResults (state_of ?c) ''food'' = Some (Value ''pizza'')"
    by (simp add: run_defs)
  have a: "summarizeChatCtx ?cfg" and b: "NoStandardLLM \<noteq> Summarized"
    by simp_all
  from summarization_failure_is_fatal[OF a b d] a r
  show ?thesis by simp
qed

end
